theory Spec2Isabelle
  imports Complex_Main
begin

section \<open>Python floats\<close>

text \<open>
  Every number of \<^verbatim>\<open>keyboard_command_node.py\<close> is a Python float, an IEEE 754 binary64.
  A finite float is modelled by its exact value, a rational; an addition or a subtraction
  is the exact operation followed by rounding to the nearest float, ties to the even
  significand (53 bits). A decimal literal is the float nearest to it. Infinities, NaN and
  the sign of zero are not represented: the operands of the node are finite (speeds between
  0 and 1, the step 0.1, wall-clock times), sums and differences of floats are exact in the
  subnormal range, and the only use of a difference is a comparison against 0.15, which a
  difference beyond the largest float decides the same way.
\<close>

type_synonym pyfloat = rat

function bitlen :: "int \<Rightarrow> int" where
  "bitlen n = (if n \<le> 0 then 0 else 1 + bitlen (n div 2))"
  by pat_completeness auto
termination
  by (relation "measure nat") auto

declare bitlen.simps [simp del]

definition pow2 :: "int \<Rightarrow> rat" where
  "pow2 e = (if 0 \<le> e then 2 ^ nat e else 1 / 2 ^ nat (- e))"

definition ilog2 :: "rat \<Rightarrow> int" where
  \<comment> \<open>for \<open>0 < q\<close>: the exponent \<open>e\<close> with \<open>2^e \<le> q < 2^(e+1)\<close>\<close>
  "ilog2 q =
     (let (n, d) = quotient_of q; e0 = bitlen n - bitlen d
      in if pow2 e0 \<le> q then e0 else e0 - 1)"

definition round_half_even :: "rat \<Rightarrow> int" where
  "round_half_even q =
     (let f = \<lfloor>q\<rfloor>; r = q - of_int f
      in if r < 1 / 2 then f else if 1 / 2 < r then f + 1
         else if even f then f else f + 1)"

definition round_double :: "rat \<Rightarrow> pyfloat" where
  "round_double q =
     (if q = 0 then 0
      else let e = ilog2 \<bar>q\<bar> - 52
           in of_int (round_half_even (q / pow2 e)) * pow2 e)"

definition fadd :: "pyfloat \<Rightarrow> pyfloat \<Rightarrow> pyfloat" where
  "fadd x y = round_double (x + y)"

definition fsub :: "pyfloat \<Rightarrow> pyfloat \<Rightarrow> pyfloat" where
  "fsub x y = round_double (x - y)"

text \<open>Python's builtins on two floats: the first argument is kept unless the second is
  strictly smaller (\<^verbatim>\<open>min\<close>) or strictly larger (\<^verbatim>\<open>max\<close>).\<close>

definition py_min :: "pyfloat \<Rightarrow> pyfloat \<Rightarrow> pyfloat" where
  "py_min a b = (if b < a then b else a)"

definition py_max :: "pyfloat \<Rightarrow> pyfloat \<Rightarrow> pyfloat" where
  "py_max a b = (if a < b then b else a)"

text \<open>The literals of the source.\<close>

definition f0_05 :: pyfloat where "f0_05 = round_double (5 / 100)"
definition f0_1 :: pyfloat where "f0_1 = round_double (1 / 10)"
definition f0_15 :: pyfloat where "f0_15 = round_double (15 / 100)"
definition f0_2 :: pyfloat where "f0_2 = round_double (2 / 10)"
definition f0_5 :: pyfloat where "f0_5 = round_double (5 / 10)"
definition f0_6 :: pyfloat where "f0_6 = round_double (6 / 10)"
definition f1_0 :: pyfloat where "f1_0 = round_double 1"

section \<open>The node\<close>

text \<open>
  \<^verbatim>\<open>geometry_msgs/Twist\<close>: \<^verbatim>\<open>Twist()\<close> is all zeros; the timer callback sets three
  of its fields.
\<close>

record twist =
  linear_x :: pyfloat
  linear_y :: pyfloat
  linear_z :: pyfloat
  angular_x :: pyfloat
  angular_y :: pyfloat
  angular_z :: pyfloat

definition Twist :: twist where
  "Twist = \<lparr>linear_x = 0, linear_y = 0, linear_z = 0,
            angular_x = 0, angular_y = 0, angular_z = 0\<rparr>"

text \<open>What the node hands to its logger: the level and the message. The message texts
  are named, with the values they format.\<close>

datatype level = INFO | WARN | ERROR

datatype message =
    Help pyfloat
  | Initialized
  | EnsureModeUnavailable
  | ServiceOK string int
  | ServiceFail string int
  | ServiceError string
  | SpeedChanged pyfloat
  | Interrupted

text \<open>The response of \<^verbatim>\<open>/ensure_mode\<close> as the done-callback sees it: \<^verbatim>\<open>fut.result()\<close>
  returns the fields \<^verbatim>\<open>result\<close>, \<^verbatim>\<open>result_str\<close>, \<^verbatim>\<open>val\<close>, or raises.\<close>

datatype response = Result bool string int | Raised string

text \<open>
  The fields of \<^verbatim>\<open>KeyboardControlNode\<close>, and the three outputs of the node as traces,
  oldest first: the messages given to \<^verbatim>\<open>twist_cmd_pub.publish\<close>, the requests given to
  \<^verbatim>\<open>ensure_mode_client.call_async\<close> and the lines given to the logger.
  \<^verbatim>\<open>pressed_keys\<close> is a Python set; it is kept as the list of its elements, in the
  order the loops visit them, and read through \<open>set\<close>.
\<close>

record node =
  pressed_keys :: "string list"
  key_last_seen :: "string \<rightharpoonup> pyfloat"
  vx :: pyfloat
  vy :: pyfloat
  vyaw :: pyfloat
  default_speed :: pyfloat
  speed :: pyfloat
  timer_period :: pyfloat
  published :: "twist list"
  requests :: "(string \<times> int) list"
  logged :: "(level \<times> message) list"

definition set_add :: "string \<Rightarrow> string list \<Rightarrow> string list" where
  "set_add k ks = (if k \<in> set ks then ks else ks @ [k])"

definition set_discard :: "string \<Rightarrow> string list \<Rightarrow> string list" where
  "set_discard k ks = removeAll k ks"

definition logger :: "level \<Rightarrow> message \<Rightarrow> node \<Rightarrow> node" where
  "logger l m s = s\<lparr>logged := logged s @ [(l, m)]\<rparr>"

definition print_help :: "node \<Rightarrow> node" where
  "print_help s = logger INFO (Help (speed s)) s"

definition init_node :: node where
  "init_node =
     logger INFO Initialized (print_help
       \<lparr>pressed_keys = [], key_last_seen = Map.empty,
        vx = 0, vy = 0, vyaw = 0,
        default_speed = f0_2, speed = f0_2,
        timer_period = f0_05,
        published = [], requests = [], logged = []\<rparr>)"

definition timer_callback :: "node \<Rightarrow> node" where
  "timer_callback s =
     (let msg = Twist;
          msg = msg\<lparr>linear_x := vx s\<rparr>;
          msg = msg\<lparr>linear_y := vy s\<rparr>;
          msg = msg\<lparr>angular_z := vyaw s\<rparr>
      in s\<lparr>published := published s @ [msg]\<rparr>)"

text \<open>
  \<^verbatim>\<open>call_ensure_mode\<close>. The answer of \<^verbatim>\<open>wait_for_service\<close> belongs to the
  environment: it is the parameter \<open>wait_for_service\<close>, asked with the timeout of the source.
  \<^verbatim>\<open>call_async\<close> appends the request to the trace; its done-callback is \<open>cb\<close>, run by
  a later \<^verbatim>\<open>spin_once\<close> with the response.
\<close>

definition call_ensure_mode :: "(pyfloat \<Rightarrow> bool) \<Rightarrow> string \<Rightarrow> int \<Rightarrow> node \<Rightarrow> node" where
  "call_ensure_mode wait_for_service field valdes s =
     (if \<not> wait_for_service f1_0 then logger ERROR EnsureModeUnavailable s
      else s\<lparr>requests := requests s @ [(field, valdes)]\<rparr>)"

fun cb :: "response \<Rightarrow> node \<Rightarrow> node" where
  "cb (Result result result_str val) s =
     (if result then logger INFO (ServiceOK result_str val) s
      else logger WARN (ServiceFail result_str val) s)"
| "cb (Raised e) s = logger ERROR (ServiceError e) s"

definition update_velocity_state :: "node \<Rightarrow> node" where
  "update_velocity_state s =
     (let vx0 = 0; vy0 = 0; vyaw0 = 0;
          vx1 = (if ''w'' \<in> set (pressed_keys s) then speed s else vx0);
          vx2 = (if ''s'' \<in> set (pressed_keys s) then - speed s else vx1);
          vy1 = (if ''a'' \<in> set (pressed_keys s) then speed s else vy0);
          vy2 = (if ''d'' \<in> set (pressed_keys s) then - speed s else vy1);
          vyaw1 = (if ''q'' \<in> set (pressed_keys s) then speed s else vyaw0);
          vyaw2 = (if ''e'' \<in> set (pressed_keys s) then - speed s else vyaw1)
      in s\<lparr>vx := vx2, vy := vy2, vyaw := vyaw2\<rparr>)"

definition adjust_speed :: "pyfloat \<Rightarrow> node \<Rightarrow> node" where
  "adjust_speed delta s =
     (let new_speed = fadd (speed s) delta;
          new_speed = py_max 0 (py_min new_speed f1_0);
          s = s\<lparr>speed := new_speed\<rparr>
      in logger INFO (SpeedChanged (speed s)) s)"

text \<open>
  \<^verbatim>\<open>keyboard_loop_once\<close>. Its inputs from the environment are \<open>key\<close>, what
  \<^verbatim>\<open>get_key_nonblocking()\<close> returned (the empty string, or one character), and
  \<open>current_time\<close>, what \<^verbatim>\<open>time.time()\<close> returned. Ctrl+C raises before anything
  is changed.
\<close>

datatype exn = KeyboardInterrupt

definition movement_keys :: "string list" where
  "movement_keys = [''w'', ''a'', ''s'', ''d'', ''q'', ''e'']"

text \<open>The \<^verbatim>\<open>if\<close>/\<^verbatim>\<open>elif\<close> chain on the key that was read (lines 151 to 177), in
  the order of the source.\<close>

definition handle_key :: "(pyfloat \<Rightarrow> bool) \<Rightarrow> string \<Rightarrow> pyfloat \<Rightarrow> node \<Rightarrow> node" where
  "handle_key wait_for_service key current_time s =
     (if key \<in> set movement_keys then
        s\<lparr>pressed_keys := set_add key (pressed_keys s),
          key_last_seen := (key_last_seen s)(key \<mapsto> current_time)\<rparr>
      else if key = ''['' then adjust_speed (- f0_1) s
      else if key = '']'' then adjust_speed f0_1 s
      else if key = ''m'' then call_ensure_mode wait_for_service ''control_mode'' 140 s
      else if key = ''n'' then call_ensure_mode wait_for_service ''control_mode'' 180 s
      else if key = ''z'' then call_ensure_mode wait_for_service ''action'' 0 s
      else if key = ''x'' then call_ensure_mode wait_for_service ''action'' 1 s
      else if key = ''c'' then call_ensure_mode wait_for_service ''action'' 2 s
      else if key = ''h'' then print_help s
      else s)"

text \<open>The first loop of the sweep, over \<^verbatim>\<open>pressed_keys\<close>: the keys to remove.\<close>

fun keys_to_remove :: "pyfloat \<Rightarrow> (string \<rightharpoonup> pyfloat) \<Rightarrow> string list \<Rightarrow> string list" where
  "keys_to_remove current_time last_seen [] = []"
| "keys_to_remove current_time last_seen (k # ks) =
     (case last_seen k of
        Some seen \<Rightarrow>
          if f0_15 < fsub current_time seen
          then k # keys_to_remove current_time last_seen ks
          else keys_to_remove current_time last_seen ks
      | None \<Rightarrow> k # keys_to_remove current_time last_seen ks)"

text \<open>The second loop: \<^verbatim>\<open>discard\<close> and \<^verbatim>\<open>pop(k, None)\<close> for each of them.\<close>

fun remove_keys :: "string list \<Rightarrow> node \<Rightarrow> node" where
  "remove_keys [] s = s"
| "remove_keys (k # ks) s =
     remove_keys ks
       (s\<lparr>pressed_keys := set_discard k (pressed_keys s),
          key_last_seen := (key_last_seen s)(k := None)\<rparr>)"

text \<open>The two loops together (lines 179 to 191).\<close>

definition sweep :: "pyfloat \<Rightarrow> node \<Rightarrow> node" where
  "sweep current_time s =
     remove_keys (keys_to_remove current_time (key_last_seen s) (pressed_keys s)) s"

definition keyboard_loop_once ::
  "(pyfloat \<Rightarrow> bool) \<Rightarrow> string \<Rightarrow> pyfloat \<Rightarrow> node \<Rightarrow> exn + node" where
  "keyboard_loop_once wait_for_service key current_time s =
     (if key \<noteq> [] \<and> key = [CHR 0x03] then Inl KeyboardInterrupt
      else
        let s = (if key \<noteq> [] then handle_key wait_for_service key current_time s else s);
            s = sweep current_time s
        in Inr (update_velocity_state s))"

text \<open>
  \<^verbatim>\<open>main\<close>. Each turn of its loop runs \<^verbatim>\<open>spin_once\<close> with a zero timeout, which
  executes at most one callback that is due (the timer's, or the done-callback of an
  answered request), then \<^verbatim>\<open>keyboard_loop_once\<close>; \<^verbatim>\<open>KeyboardInterrupt\<close> is caught,
  logged, and ends the loop. What the environment supplies in one turn is an
  \<open>iteration\<close>; the loop runs over the list of them until \<^verbatim>\<open>rclpy.ok()\<close> fails.
\<close>

datatype callback = TimerDue | ResponseDue response

fun spin_once :: "callback option \<Rightarrow> node \<Rightarrow> node" where
  "spin_once None s = s"
| "spin_once (Some TimerDue) s = timer_callback s"
| "spin_once (Some (ResponseDue r)) s = cb r s"

record iteration =
  callback_due :: "callback option"
  service_answer :: "pyfloat \<Rightarrow> bool"
  key_read :: string
  time_read :: pyfloat

fun main_loop :: "iteration list \<Rightarrow> node \<Rightarrow> node" where
  "main_loop [] node = node"
| "main_loop (i # rest) node =
     (let node = spin_once (callback_due i) node
      in case keyboard_loop_once (service_answer i) (key_read i) (time_read i) node of
           Inl KeyboardInterrupt \<Rightarrow> logger INFO Interrupted node
         | Inr node' \<Rightarrow> main_loop rest node')"


text \<open>The states the program reaches: any interleaving of the callbacks and the polls,
  from the node \<^verbatim>\<open>__init__\<close> builds.\<close>

inductive reachable :: "node \<Rightarrow> bool" where
  init: "reachable init_node"
| timer: "reachable s \<Longrightarrow> reachable (timer_callback s)"
| done_callback: "reachable s \<Longrightarrow> reachable (cb r s)"
| loop_once:
    "reachable s \<Longrightarrow> keyboard_loop_once wait_for_service key current_time s = Inr s'
      \<Longrightarrow> reachable s'"
| interrupted:
    "reachable s \<Longrightarrow> keyboard_loop_once wait_for_service key current_time s = Inl e
      \<Longrightarrow> reachable (logger INFO Interrupted s)"

text \<open>Successive calls of \<^verbatim>\<open>adjust_speed\<close>, one for each delta of the list.\<close>

fun adjust_speeds :: "pyfloat list \<Rightarrow> node \<Rightarrow> node" where
  "adjust_speeds [] s = s"
| "adjust_speeds (delta # deltas) s = adjust_speeds deltas (adjust_speed delta s)"

text \<open>Two answers of the environment to \<^verbatim>\<open>wait_for_service\<close>, and turns of the loop
  in which no callback is due and the service answers.\<close>

definition service_up :: "pyfloat \<Rightarrow> bool" where
  "service_up timeout_sec = True"

definition service_down :: "pyfloat \<Rightarrow> bool" where
  "service_down timeout_sec = False"

definition poll :: "string \<Rightarrow> pyfloat \<Rightarrow> iteration" where
  "poll k t = \<lparr>callback_due = None, service_answer = service_up, key_read = k, time_read = t\<rparr>"


text \<open>The test of the first loop of the sweep: the key has no entry in
  \<^verbatim>\<open>key_last_seen\<close>, or its entry is more than 0.15 before \<open>current_time\<close>.\<close>

definition stale :: "pyfloat \<Rightarrow> (string \<rightharpoonup> pyfloat) \<Rightarrow> string \<Rightarrow> bool" where
  "stale current_time last_seen k =
     (case last_seen k of None \<Rightarrow> True | Some seen \<Rightarrow> f0_15 < fsub current_time seen)"

section \<open>Runs of the program\<close>

text \<open>States of the node after a few turns of the loop, named by what happened.\<close>

definition held_w :: node where
  "held_w = main_loop [poll ''w'' 0] init_node"

definition held_w_again :: node where
  "held_w_again = main_loop [poll ''w'' 0, poll ''w'' 1] init_node"

definition held_w_released :: node where
  "held_w_released = main_loop [poll ''w'' 0, poll [] 1] init_node"

definition held_w_interrupted :: node where
  "held_w_interrupted = main_loop [poll ''w'' 0, poll [CHR 0x03] 1] init_node"




definition held_w_faster :: node where
  "held_w_faster = main_loop [poll '']'' 0, poll ''w'' 0] init_node"

definition held_w_later :: node where
  "held_w_later = main_loop [poll ''a'' 0, poll [] 1, poll ''w'' 2] init_node"

definition held_all :: node where
  "held_all =
     main_loop [poll ''w'' 0, poll ''s'' 0, poll ''a'' 0, poll ''d'' 0, poll ''q'' 0,
                poll ''e'' 0] init_node"

definition held_w_then_faster :: node where
  "held_w_then_faster = main_loop [poll ''w'' 0, poll '']'' 0] init_node"

definition held_w_then_idle :: node where
  "held_w_then_idle = main_loop [poll ''w'' 0, poll [] 0] init_node"

definition held_w_then_help :: node where
  "held_w_then_help = main_loop [poll ''w'' 0, poll ''h'' 0] init_node"

definition held_w_published :: node where
  "held_w_published = timer_callback held_w"

definition mode_key_service_up :: node where
  "mode_key_service_up = main_loop [poll ''m'' 0] init_node"

definition mode_key_service_down :: node where
  "mode_key_service_down =
     main_loop [\<lparr>callback_due = None, service_answer = service_down, key_read = ''m'',
                 time_read = 0\<rparr>] init_node"

section \<open>Values of the literals\<close>

lemma f0_05_val: "f0_05 = 3602879701896397 / 72057594037927936"
  unfolding f0_05_def by code_simp

lemma f0_1_val: "f0_1 = 3602879701896397 / 36028797018963968"
  unfolding f0_1_def by code_simp


lemma f0_2_val: "f0_2 = 3602879701896397 / 18014398509481984"
  unfolding f0_2_def by code_simp

lemma f0_5_val: "f0_5 = 1 / 2"
  unfolding f0_5_def by code_simp

lemma f0_6_val: "f0_6 = 5404319552844595 / 9007199254740992"
  unfolding f0_6_def by code_simp

lemma f1_0_val: "f1_0 = 1"
  unfolding f1_0_def by code_simp


section \<open>What each operation changes\<close>

lemma logger_fields:
  "pressed_keys (logger l m s) = pressed_keys s"
  "key_last_seen (logger l m s) = key_last_seen s"
  "vx (logger l m s) = vx s" "vy (logger l m s) = vy s" "vyaw (logger l m s) = vyaw s"
  "speed (logger l m s) = speed s" "timer_period (logger l m s) = timer_period s"
  "published (logger l m s) = published s" "requests (logger l m s) = requests s"
  "logged (logger l m s) = logged s @ [(l, m)]"
  by (simp_all add: logger_def)

lemma cb_fields:
  "pressed_keys (cb r s) = pressed_keys s"
  "key_last_seen (cb r s) = key_last_seen s"
  "vx (cb r s) = vx s" "vy (cb r s) = vy s" "vyaw (cb r s) = vyaw s"
  "speed (cb r s) = speed s" "timer_period (cb r s) = timer_period s"
  "published (cb r s) = published s" "requests (cb r s) = requests s"
  by (cases r; simp add: logger_fields)+

lemma timer_callback_fields:
  "pressed_keys (timer_callback s) = pressed_keys s"
  "key_last_seen (timer_callback s) = key_last_seen s"
  "vx (timer_callback s) = vx s" "vy (timer_callback s) = vy s"
  "vyaw (timer_callback s) = vyaw s"
  "speed (timer_callback s) = speed s" "timer_period (timer_callback s) = timer_period s"
  "requests (timer_callback s) = requests s" "logged (timer_callback s) = logged s"
  by (simp_all add: timer_callback_def Let_def)

lemma published_timer_callback:
  "published (timer_callback s) =
     published s @ [\<lparr>linear_x = vx s, linear_y = vy s, linear_z = 0,
                     angular_x = 0, angular_y = 0, angular_z = vyaw s\<rparr>]"
  by (simp add: timer_callback_def Twist_def Let_def)

lemma call_ensure_mode_fields:
  "pressed_keys (call_ensure_mode w f v s) = pressed_keys s"
  "key_last_seen (call_ensure_mode w f v s) = key_last_seen s"
  "vx (call_ensure_mode w f v s) = vx s" "vy (call_ensure_mode w f v s) = vy s"
  "vyaw (call_ensure_mode w f v s) = vyaw s"
  "speed (call_ensure_mode w f v s) = speed s"
  "timer_period (call_ensure_mode w f v s) = timer_period s"
  "published (call_ensure_mode w f v s) = published s"
  by (simp_all add: call_ensure_mode_def logger_fields)

lemma requests_call_ensure_mode:
  "requests (call_ensure_mode w f v s) =
     (if w f1_0 then requests s @ [(f, v)] else requests s)"
  by (simp add: call_ensure_mode_def logger_fields)

lemma adjust_speed_fields:
  "pressed_keys (adjust_speed d s) = pressed_keys s"
  "key_last_seen (adjust_speed d s) = key_last_seen s"
  "vx (adjust_speed d s) = vx s" "vy (adjust_speed d s) = vy s"
  "vyaw (adjust_speed d s) = vyaw s"
  "timer_period (adjust_speed d s) = timer_period s"
  "published (adjust_speed d s) = published s" "requests (adjust_speed d s) = requests s"
  by (simp_all add: adjust_speed_def logger_fields Let_def)

lemma speed_adjust_speed:
  "speed (adjust_speed d s) = py_max 0 (py_min (fadd (speed s) d) f1_0)"
  by (simp add: adjust_speed_def logger_fields Let_def)

lemma clamp_bounds:
  "0 \<le> py_max 0 (py_min x f1_0)" "py_max 0 (py_min x f1_0) \<le> 1"
  by (simp_all add: py_max_def py_min_def f1_0_val)

lemma print_help_fields:
  "pressed_keys (print_help s) = pressed_keys s"
  "key_last_seen (print_help s) = key_last_seen s"
  "vx (print_help s) = vx s" "vy (print_help s) = vy s" "vyaw (print_help s) = vyaw s"
  "speed (print_help s) = speed s" "timer_period (print_help s) = timer_period s"
  "published (print_help s) = published s" "requests (print_help s) = requests s"
  by (simp_all add: print_help_def logger_fields)

lemma update_velocity_state_fields:
  "pressed_keys (update_velocity_state s) = pressed_keys s"
  "key_last_seen (update_velocity_state s) = key_last_seen s"
  "speed (update_velocity_state s) = speed s"
  "timer_period (update_velocity_state s) = timer_period s"
  "published (update_velocity_state s) = published s"
  "requests (update_velocity_state s) = requests s"
  "logged (update_velocity_state s) = logged s"
  by (simp_all add: update_velocity_state_def Let_def)

lemma velocity_update_velocity_state:
  "vx (update_velocity_state s) =
     (if ''s'' \<in> set (pressed_keys s) then - speed s
      else if ''w'' \<in> set (pressed_keys s) then speed s else 0)"
  "vy (update_velocity_state s) =
     (if ''d'' \<in> set (pressed_keys s) then - speed s
      else if ''a'' \<in> set (pressed_keys s) then speed s else 0)"
  "vyaw (update_velocity_state s) =
     (if ''e'' \<in> set (pressed_keys s) then - speed s
      else if ''q'' \<in> set (pressed_keys s) then speed s else 0)"
  by (simp_all add: update_velocity_state_def Let_def)

section \<open>The sweep\<close>

text \<open>What the two loops compute does not depend on the order in which they visit the
  keys: the keys removed are the stale ones of the set, and they leave the set and the map
  together.\<close>

lemma set_keys_to_remove:
  "set (keys_to_remove t ls ks) = {k \<in> set ks. stale t ls k}"
  by (induction ks) (auto simp: stale_def split: option.splits)

lemma remove_keys_fields:
  "vx (remove_keys rm s) = vx s" "vy (remove_keys rm s) = vy s"
  "vyaw (remove_keys rm s) = vyaw s" "speed (remove_keys rm s) = speed s"
  "timer_period (remove_keys rm s) = timer_period s"
  "published (remove_keys rm s) = published s" "requests (remove_keys rm s) = requests s"
  "logged (remove_keys rm s) = logged s"
  by (induction rm arbitrary: s; simp)+

lemma pressed_keys_remove_keys:
  "set (pressed_keys (remove_keys rm s)) = set (pressed_keys s) - set rm"
  by (induction rm arbitrary: s) (auto simp: set_discard_def)

lemma key_last_seen_remove_keys:
  "key_last_seen (remove_keys rm s) k = (if k \<in> set rm then None else key_last_seen s k)"
  by (induction rm arbitrary: s) auto

lemma sweep_fields:
  "vx (sweep t s) = vx s" "vy (sweep t s) = vy s"
  "vyaw (sweep t s) = vyaw s" "speed (sweep t s) = speed s"
  "timer_period (sweep t s) = timer_period s"
  "published (sweep t s) = published s" "requests (sweep t s) = requests s"
  "logged (sweep t s) = logged s"
  by (simp_all add: sweep_def remove_keys_fields)

lemma pressed_keys_sweep:
  "set (pressed_keys (sweep t s)) =
     {k \<in> set (pressed_keys s). \<not> stale t (key_last_seen s) k}"
  by (auto simp: sweep_def pressed_keys_remove_keys set_keys_to_remove)

lemma key_last_seen_sweep:
  "key_last_seen (sweep t s) k =
     (if k \<in> set (pressed_keys s) \<and> stale t (key_last_seen s) k then None
      else key_last_seen s k)"
  by (simp add: sweep_def key_last_seen_remove_keys set_keys_to_remove)

section \<open>One poll\<close>

lemma keyboard_loop_once_Inr:
  "keyboard_loop_once w key t s = Inr s' \<longleftrightarrow>
     key \<noteq> [CHR 0x03] \<and>
     s' = update_velocity_state (sweep t (if key \<noteq> [] then handle_key w key t s else s))"
  by (auto simp: keyboard_loop_once_def Let_def)


lemma handle_key_speed:
  "speed (handle_key w key t s) =
     (if key = ''['' then py_max 0 (py_min (fadd (speed s) (- f0_1)) f1_0)
      else if key = '']'' then py_max 0 (py_min (fadd (speed s) f0_1) f1_0)
      else speed s)"
  by (simp add: handle_key_def movement_keys_def speed_adjust_speed call_ensure_mode_fields
      print_help_fields)

lemma handle_key_pressed_keys:
  "set (pressed_keys (handle_key w key t s)) =
     (if key \<in> set movement_keys then insert key (set (pressed_keys s))
      else set (pressed_keys s))"
  by (auto simp: handle_key_def set_add_def adjust_speed_fields call_ensure_mode_fields
      print_help_fields)

lemma handle_key_key_last_seen:
  "key_last_seen (handle_key w key t s) =
     (if key \<in> set movement_keys then (key_last_seen s)(key \<mapsto> t) else key_last_seen s)"
  by (auto simp: handle_key_def adjust_speed_fields call_ensure_mode_fields print_help_fields)

lemma handle_key_requests:
  "requests (handle_key w key t s) =
     (if \<not> w f1_0 then requests s
      else if key = ''m'' then requests s @ [(''control_mode'', 140)]
      else if key = ''n'' then requests s @ [(''control_mode'', 180)]
      else if key = ''z'' then requests s @ [(''action'', 0)]
      else if key = ''x'' then requests s @ [(''action'', 1)]
      else if key = ''c'' then requests s @ [(''action'', 2)]
      else requests s)"
  by (simp add: handle_key_def movement_keys_def requests_call_ensure_mode adjust_speed_fields
      print_help_fields)

lemma handle_key_published: "published (handle_key w key t s) = published s"
  by (simp add: handle_key_def adjust_speed_fields call_ensure_mode_fields print_help_fields)


lemma keyboard_loop_once_published:
  "keyboard_loop_once w key t s = Inr s' \<Longrightarrow> published s' = published s"
  by (simp add: keyboard_loop_once_Inr update_velocity_state_fields sweep_fields
      handle_key_published)


section \<open>Invariants of the reachable states\<close>

lemma init_node_fields:
  "pressed_keys init_node = []" "key_last_seen init_node = Map.empty"
  "vx init_node = 0" "vy init_node = 0" "vyaw init_node = 0"
  "speed init_node = f0_2" "timer_period init_node = f0_05"
  "published init_node = []" "requests init_node = []"
  by (simp_all add: init_node_def logger_fields print_help_fields)

lemma reachable_fresh:
  "reachable s \<Longrightarrow>
     vx s = vx (update_velocity_state s) \<and> vy s = vy (update_velocity_state s) \<and>
     vyaw s = vyaw (update_velocity_state s)"
proof (induction rule: reachable.induct)
  case init
  show ?case by (simp add: init_node_fields velocity_update_velocity_state)
next
  case (timer s)
  then show ?case by (simp add: timer_callback_fields velocity_update_velocity_state)
next
  case (done_callback s r)
  then show ?case by (simp add: cb_fields velocity_update_velocity_state)
next
  case (loop_once s w key t s')
  from loop_once.hyps(2) obtain u where s': "s' = update_velocity_state u"
    by (auto simp: keyboard_loop_once_Inr)
  show ?case unfolding s'
    by (simp add: velocity_update_velocity_state update_velocity_state_fields)
next
  case (interrupted s w key t e)
  then show ?case by (simp add: logger_fields velocity_update_velocity_state)
qed

lemma reachable_speed: "reachable s \<Longrightarrow> 0 \<le> speed s \<and> speed s \<le> 1"
proof (induction rule: reachable.induct)
  case init
  show ?case by (simp add: init_node_fields f0_2_val)
next
  case (timer s)
  then show ?case by (simp add: timer_callback_fields)
next
  case (done_callback s r)
  then show ?case by (simp add: cb_fields)
next
  case (loop_once s w key t s')
  then show ?case
    by (auto simp: keyboard_loop_once_Inr update_velocity_state_fields sweep_fields
        handle_key_speed clamp_bounds)
next
  case (interrupted s w key t e)
  then show ?case by (simp add: logger_fields)
qed


lemma reachable_held:
  "reachable s \<Longrightarrow>
     set (pressed_keys s) \<subseteq> set movement_keys \<and> set (pressed_keys s) \<subseteq> dom (key_last_seen s)"
proof (induction rule: reachable.induct)
  case init
  show ?case by (simp add: init_node_fields)
next
  case (timer s)
  then show ?case by (simp add: timer_callback_fields)
next
  case (done_callback s r)
  then show ?case by (simp add: cb_fields)
next
  case (loop_once s w key t s')
  from loop_once.hyps(2) obtain u where
    s': "s' = update_velocity_state (sweep t u)"
    and u: "u = (if key \<noteq> [] then handle_key w key t s else s)"
    by (auto simp: keyboard_loop_once_Inr)
  have "set (pressed_keys u) \<subseteq> set movement_keys"
    using loop_once.IH by (auto simp: u handle_key_pressed_keys)
  moreover have "set (pressed_keys (sweep t u)) \<subseteq> dom (key_last_seen (sweep t u))"
    by (auto simp: pressed_keys_sweep key_last_seen_sweep stale_def split: option.splits)
  ultimately show ?case
    by (auto simp: s' update_velocity_state_fields pressed_keys_sweep)
next
  case (interrupted s w key t e)
  then show ?case by (simp add: logger_fields)
qed

lemma main_loop_reachable: "reachable s \<Longrightarrow> reachable (main_loop its s)"
proof (induction its arbitrary: s)
  case Nil
  then show ?case by simp
next
  case (Cons i rest)
  have sp: "reachable (spin_once (callback_due i) s)"
    using Cons.prems by (cases "(callback_due i, s)" rule: spin_once.cases)
      (auto intro: reachable.timer reachable.done_callback)
  show ?case
  proof (cases "keyboard_loop_once (service_answer i) (key_read i) (time_read i)
                  (spin_once (callback_due i) s)")
    case (Inl e)
    then show ?thesis using sp
      by (cases e) (auto simp: Let_def intro: reachable.interrupted)
  next
    case (Inr s')
    then have "reachable s'" using sp by (rule reachable.loop_once [rotated])
    then show ?thesis using Inr Cons.IH by (simp add: Let_def)
  qed
qed

lemma keyboard_loop_once_returns:
  "key \<noteq> [CHR 0x03] \<Longrightarrow>
     keyboard_loop_once w key t s =
       Inr (update_velocity_state (sweep t (if key \<noteq> [] then handle_key w key t s else s)))"
  by (simp add: keyboard_loop_once_def Let_def)

lemma reachable_held_w: "reachable held_w"
  unfolding held_w_def by (intro main_loop_reachable reachable.init)

lemma reachable_velocity_bounds:
  assumes "reachable s"
  shows "\<bar>vx s\<bar> \<le> speed s \<and> \<bar>vy s\<bar> \<le> speed s \<and> \<bar>vyaw s\<bar> \<le> speed s"
  using reachable_fresh [OF assms] reachable_speed [OF assms]
  by (simp add: velocity_update_velocity_state)

lemma reachable_published:
  "reachable s \<Longrightarrow>
     \<forall>m \<in> set (published s). \<bar>linear_x m\<bar> \<le> 1 \<and> \<bar>linear_y m\<bar> \<le> 1 \<and> \<bar>angular_z m\<bar> \<le> 1"
proof (induction rule: reachable.induct)
  case init
  show ?case by (simp add: init_node_fields)
next
  case (timer s)
  from reachable_velocity_bounds [OF timer.hyps] reachable_speed [OF timer.hyps]
  have "\<bar>vx s\<bar> \<le> 1 \<and> \<bar>vy s\<bar> \<le> 1 \<and> \<bar>vyaw s\<bar> \<le> 1" by linarith
  then show ?case using timer.IH by (simp add: published_timer_callback)
next
  case (done_callback s r)
  then show ?case by (simp add: cb_fields)
next
  case (loop_once s w key t s')
  then show ?case by (simp add: keyboard_loop_once_published)
next
  case (interrupted s w key t e)
  then show ?case by (simp add: logger_fields)
qed

section \<open>Repeated calls\<close>

lemma speed_adjust_speeds_bounds:
  "0 \<le> speed s \<and> speed s \<le> 1 \<Longrightarrow>
     0 \<le> speed (adjust_speeds ds s) \<and> speed (adjust_speeds ds s) \<le> 1"
proof (induction ds arbitrary: s)
  case Nil
  then show ?case by simp
next
  case (Cons d ds)
  have "0 \<le> speed (adjust_speed d s) \<and> speed (adjust_speed d s) \<le> 1"
    by (simp add: speed_adjust_speed clamp_bounds)
  then show ?case using Cons.IH by simp
qed

lemma no_clamp: "0 \<le> x \<Longrightarrow> x \<le> 1 \<Longrightarrow> py_max 0 (py_min x f1_0) = x"
  by (simp add: py_max_def py_min_def f1_0_val)

text \<open>The four sums of \<^verbatim>\<open>0.2 + 0.1 + 0.1 + 0.1 + 0.1\<close>, each rounded:
  \<^verbatim>\<open>0.30000000000000004\<close>, \<^verbatim>\<open>0.4\<close>, \<^verbatim>\<open>0.5\<close>, \<^verbatim>\<open>0.6\<close>.\<close>

lemma sum1: "fadd f0_2 f0_1 = 1351079888211149 / 4503599627370496"
  by code_simp

lemma sum2:
  "fadd (1351079888211149 / 4503599627370496) f0_1 = 3602879701896397 / 9007199254740992"
  by code_simp

lemma sum3: "fadd (3602879701896397 / 9007199254740992) f0_1 = 1 / 2"
  by code_simp

lemma sum4: "fadd (1 / 2) f0_1 = 5404319552844595 / 9007199254740992"
  by code_simp










lemma handle_key_requests_empty:
  "requests (if key \<noteq> [] then handle_key w key t s else s) = requests (handle_key w key t s)"
  by (simp add: handle_key_requests)

section \<open>The claims\<close>

text \<open>
  Claim C1. Whenever two opposing movement keys are both in the held-key set, the velocity
  mapper gives the shared axis the value of the key it tests later, times the speed:
  \<^verbatim>\<open>s\<close> over \<^verbatim>\<open>w\<close> gives \<open>vx = - speed\<close>, \<^verbatim>\<open>d\<close> over \<^verbatim>\<open>a\<close> gives
  \<open>vy = - speed\<close>, \<^verbatim>\<open>e\<close> over \<^verbatim>\<open>q\<close> gives \<open>vyaw = - speed\<close>. The two keys do
  not cancel: the value is zero only when the speed is.
\<close>

theorem opposing_keys_precedence:
  "(''w'' \<in> set (pressed_keys s) \<and> ''s'' \<in> set (pressed_keys s) \<longrightarrow>
      vx (update_velocity_state s) = - speed s \<and>
      (speed s \<noteq> 0 \<longrightarrow> vx (update_velocity_state s) \<noteq> 0)) \<and>
   (''a'' \<in> set (pressed_keys s) \<and> ''d'' \<in> set (pressed_keys s) \<longrightarrow>
      vy (update_velocity_state s) = - speed s \<and>
      (speed s \<noteq> 0 \<longrightarrow> vy (update_velocity_state s) \<noteq> 0)) \<and>
   (''q'' \<in> set (pressed_keys s) \<and> ''e'' \<in> set (pressed_keys s) \<longrightarrow>
      vyaw (update_velocity_state s) = - speed s \<and>
      (speed s \<noteq> 0 \<longrightarrow> vyaw (update_velocity_state s) \<noteq> 0))"
  by (simp add: velocity_update_velocity_state)

text \<open>All six movement keys read at the same time, at the initial speed.\<close>

theorem opposing_keys_precedence_witness:
  "set (pressed_keys held_all) = {''w'', ''s'', ''a'', ''d'', ''q'', ''e''} \<and>
   speed held_all = f0_2 \<and> f0_2 \<noteq> 0 \<and>
   vx (update_velocity_state held_all) = - f0_2 \<and>
   vy (update_velocity_state held_all) = - f0_2 \<and>
   vyaw (update_velocity_state held_all) = - f0_2 \<and>
   vx (update_velocity_state held_all) \<noteq> 0"
proof -
  have k: "set (pressed_keys held_all) = {''w'', ''s'', ''a'', ''d'', ''q'', ''e''}"
    by code_simp
  have sp: "speed held_all = f0_2"
    by code_simp
  have nz: "f0_2 \<noteq> 0"
    by (simp add: f0_2_val)
  from opposing_keys_precedence [of held_all] k sp nz show ?thesis
    by simp
qed

text \<open>
  Claim C2, as stated, fails in two calls. \<^verbatim>\<open>w\<close> is held with the time stamp 0. A call
  at time 1 that reads \<^verbatim>\<open>w\<close> again finds the stamp older than 0.15, but stores the new
  stamp before the sweep, and the sweep keeps the key. A call at time 1 that reads Ctrl+C
  raises before the sweep, and the key stays in the set.
\<close>

theorem stale_key_kept_when_read_again:
  "''w'' \<in> set (pressed_keys held_w) \<and> key_last_seen held_w ''w'' = Some 0 \<and>
   f0_15 < fsub 1 0 \<and>
   keyboard_loop_once service_up ''w'' 1 held_w = Inr held_w_again \<and>
   ''w'' \<in> set (pressed_keys held_w_again) \<and> key_last_seen held_w_again ''w'' = Some 1 \<and>
   keyboard_loop_once service_up [CHR 0x03] 1 held_w = Inl KeyboardInterrupt \<and>
   ''w'' \<in> set (pressed_keys held_w_interrupted)"
proof -
  have "''w'' \<in> set (pressed_keys held_w)" by code_simp
  moreover have "key_last_seen held_w ''w'' = Some 0" by code_simp
  moreover have "f0_15 < fsub 1 0" by code_simp
  moreover have "keyboard_loop_once service_up ''w'' 1 held_w = Inr held_w_again"
    by (simp add: held_w_def held_w_again_def Let_def poll_def keyboard_loop_once_returns)
  moreover have "''w'' \<in> set (pressed_keys held_w_again)" by code_simp
  moreover have "key_last_seen held_w_again ''w'' = Some 1" by code_simp
  moreover have "keyboard_loop_once service_up [CHR 0x03] 1 held_w = Inl KeyboardInterrupt"
    by (simp add: keyboard_loop_once_def)
  moreover have "''w'' \<in> set (pressed_keys held_w_interrupted)" by code_simp
  ultimately show ?thesis by simp
qed

text \<open>
  Claim C2, amended. In a call of \<^verbatim>\<open>keyboard_loop_once\<close> that returns (it did not read
  Ctrl+C) and that did not read the key \<open>k\<close> itself: if \<open>k\<close> is in the held-key set when
  the call starts and its last-seen time stamp is more than 0.15 before the call's current
  time, or it has no last-seen entry, then after the call \<open>k\<close> is neither in the held-key
  set nor in the last-seen map.
\<close>

theorem stale_key_removed:
  assumes "keyboard_loop_once wait_for_service key current_time s = Inr s'"
    and "k \<in> set (pressed_keys s)"
    and "key \<noteq> k"
    and "stale current_time (key_last_seen s) k"
  shows "k \<notin> set (pressed_keys s') \<and> key_last_seen s' k = None"
proof -
  let ?u = "if key \<noteq> [] then handle_key wait_for_service key current_time s else s"
  from assms(1) have s': "s' = update_velocity_state (sweep current_time ?u)"
    by (simp add: keyboard_loop_once_Inr)
  have held: "k \<in> set (pressed_keys ?u)"
    using assms(2) by (simp add: handle_key_pressed_keys)
  have "key_last_seen ?u k = key_last_seen s k"
    using assms(3) by (simp add: handle_key_key_last_seen)
  then have st: "stale current_time (key_last_seen ?u) k"
    using assms(4) by (simp add: stale_def)
  show ?thesis
    unfolding s' using held st
    by (simp add: update_velocity_state_fields pressed_keys_sweep key_last_seen_sweep)
qed

text \<open>\<^verbatim>\<open>w\<close> read at time 0, nothing read at time 1.\<close>

theorem stale_key_removed_witness:
  "keyboard_loop_once service_up [] 1 held_w = Inr held_w_released \<and>
   ''w'' \<in> set (pressed_keys held_w) \<and> [] \<noteq> ''w'' \<and>
   stale 1 (key_last_seen held_w) ''w'' \<and>
   ''w'' \<notin> set (pressed_keys held_w_released) \<and>
   key_last_seen held_w_released ''w'' = None"
proof -
  have 1: "keyboard_loop_once service_up [] 1 held_w = Inr held_w_released"
    by (simp add: held_w_def held_w_released_def Let_def poll_def keyboard_loop_once_returns)
  have 2: "''w'' \<in> set (pressed_keys held_w)" by code_simp
  have 3: "[] \<noteq> ''w''" by simp
  have 4: "stale 1 (key_last_seen held_w) ''w''" by code_simp
  from stale_key_removed [OF 1 2 3 4] 1 2 3 4 show ?thesis by blast
qed

text \<open>
  Claim C3. From a speed between 0.0 and 1.0, after each call of a sequence of
  \<^verbatim>\<open>adjust_speed\<close> calls with the deltas \<^verbatim>\<open>-0.1\<close> and \<^verbatim>\<open>+0.1\<close> the speed is
  between 0.0 and 1.0: the state after the first \<open>n\<close> calls, for every \<open>n\<close>.
\<close>

theorem speed_stays_in_bounds:
  assumes "0 \<le> speed s" and "speed s \<le> 1"
    and "set deltas \<subseteq> {- f0_1, f0_1}"
    and "n \<le> length deltas"
  shows "0 \<le> speed (adjust_speeds (take n deltas) s) \<and>
         speed (adjust_speeds (take n deltas) s) \<le> 1"
  using assms(1,2) by (intro speed_adjust_speeds_bounds) simp

text \<open>Three presses of \<^verbatim>\<open>[\<close> from the initial speed, the third of which is clamped.\<close>

theorem speed_stays_in_bounds_witness:
  "0 \<le> speed init_node \<and> speed init_node \<le> 1 \<and>
   set [- f0_1, - f0_1, - f0_1, f0_1] \<subseteq> {- f0_1, f0_1} \<and>
   (3::nat) \<le> length [- f0_1, - f0_1, - f0_1, f0_1] \<and>
   0 \<le> speed (adjust_speeds (take 3 [- f0_1, - f0_1, - f0_1, f0_1]) init_node) \<and>
   speed (adjust_speeds (take 3 [- f0_1, - f0_1, - f0_1, f0_1]) init_node) \<le> 1"
proof -
  have 1: "0 \<le> speed init_node" by (simp add: init_node_fields f0_2_val)
  have 2: "speed init_node \<le> 1" by (simp add: init_node_fields f0_2_val)
  have 3: "set [- f0_1, - f0_1, - f0_1, f0_1] \<subseteq> {- f0_1, f0_1}" by simp
  have 4: "(3::nat) \<le> length [- f0_1, - f0_1, - f0_1, f0_1]" by simp
  from speed_stays_in_bounds [OF 1 2 3 4] 1 2 3 4 show ?thesis by blast
qed




text \<open>
  Claim C5. When \<^verbatim>\<open>wait_for_service\<close> with the timeout 1.0 answers no,
  \<^verbatim>\<open>call_ensure_mode\<close> changes nothing but the log, to which it adds one error: no
  request is sent, nothing is kept for later, and the velocity, the speed and the held-key
  set are as before.
\<close>

theorem ensure_mode_unavailable:
  assumes "\<not> wait_for_service f1_0"
  shows "call_ensure_mode wait_for_service field valdes s =
           s\<lparr>logged := logged s @ [(ERROR, EnsureModeUnavailable)]\<rparr> \<and>
         requests (call_ensure_mode wait_for_service field valdes s) = requests s \<and>
         logged (call_ensure_mode wait_for_service field valdes s) =
           logged s @ [(ERROR, EnsureModeUnavailable)] \<and>
         vx (call_ensure_mode wait_for_service field valdes s) = vx s \<and>
         vy (call_ensure_mode wait_for_service field valdes s) = vy s \<and>
         vyaw (call_ensure_mode wait_for_service field valdes s) = vyaw s \<and>
         speed (call_ensure_mode wait_for_service field valdes s) = speed s \<and>
         pressed_keys (call_ensure_mode wait_for_service field valdes s) = pressed_keys s"
  using assms by (simp add: call_ensure_mode_def logger_def)

theorem ensure_mode_unavailable_witness:
  "\<not> service_down f1_0 \<and> f1_0 = 1 \<and>
   requests (call_ensure_mode service_down ''control_mode'' 140 held_w) = requests held_w \<and>
   logged (call_ensure_mode service_down ''control_mode'' 140 held_w) =
     logged held_w @ [(ERROR, EnsureModeUnavailable)] \<and>
   vx (call_ensure_mode service_down ''control_mode'' 140 held_w) = vx held_w"
proof -
  have 1: "\<not> service_down f1_0" by (simp add: service_down_def)
  from ensure_mode_unavailable [of service_down "''control_mode''" 140 held_w] 1
  show ?thesis by (simp add: f1_0_val)
qed

text \<open>
  Claim C6, as stated, fails: after \<^verbatim>\<open>w\<close> alone, and after \<^verbatim>\<open>]\<close> then \<^verbatim>\<open>w\<close>, the
  held-key set is \<open>{w}\<close> both times, and the velocities differ (0.2 and
  0.30000000000000004), because the speeds do.
\<close>

theorem same_held_keys_different_velocity:
  "set (pressed_keys held_w) = set (pressed_keys held_w_faster) \<and>
   vx held_w \<noteq> vx held_w_faster \<and>
   vx (update_velocity_state held_w) \<noteq> vx (update_velocity_state held_w_faster)"
proof -
  have "set (pressed_keys held_w) = set (pressed_keys held_w_faster)" by code_simp
  moreover have "vx held_w \<noteq> vx held_w_faster" by code_simp
  moreover have "vx (update_velocity_state held_w) \<noteq> vx (update_velocity_state held_w_faster)"
    by code_simp
  ultimately show ?thesis by simp
qed

text \<open>
  Claim C6, amended. Two states reached by any two sequences of observations that have the
  same held-key set and the same speed have the same velocity vector, and the velocity
  mapper gives the same vector for both: the output depends on the current held-key set and
  the current speed, not on the rest of the history.
\<close>

theorem velocity_from_held_keys_and_speed:
  assumes "s1 = main_loop observations1 init_node"
    and "s2 = main_loop observations2 init_node"
    and "set (pressed_keys s1) = set (pressed_keys s2)"
    and "speed s1 = speed s2"
  shows "vx s1 = vx s2 \<and> vy s1 = vy s2 \<and> vyaw s1 = vyaw s2 \<and>
         vx (update_velocity_state s1) = vx (update_velocity_state s2) \<and>
         vy (update_velocity_state s1) = vy (update_velocity_state s2) \<and>
         vyaw (update_velocity_state s1) = vyaw (update_velocity_state s2)"
proof -
  have "reachable s1" "reachable s2"
    unfolding assms(1,2) by (intro main_loop_reachable reachable.init)+
  from this [THEN reachable_fresh] assms(3,4) show ?thesis
    by (simp add: velocity_update_velocity_state)
qed

text \<open>\<^verbatim>\<open>w\<close> alone, and \<^verbatim>\<open>a\<close>, a release, then \<^verbatim>\<open>w\<close>.\<close>

theorem velocity_from_held_keys_and_speed_witness:
  "held_w = main_loop [poll ''w'' 0] init_node \<and>
   held_w_later = main_loop [poll ''a'' 0, poll [] 1, poll ''w'' 2] init_node \<and>
   set (pressed_keys held_w) = set (pressed_keys held_w_later) \<and>
   speed held_w = speed held_w_later \<and>
   vx held_w = vx held_w_later \<and> vy held_w = vy held_w_later \<and>
   vyaw held_w = vyaw held_w_later"
proof -
  have 3: "set (pressed_keys held_w) = set (pressed_keys held_w_later)" by code_simp
  have 4: "speed held_w = speed held_w_later" by code_simp
  from velocity_from_held_keys_and_speed [OF held_w_def held_w_later_def 3 4]
    held_w_def held_w_later_def 3 4
  show ?thesis by blast
qed

text \<open>
  Claim C7. From the initial speed 0.2, three calls \<^verbatim>\<open>adjust_speed(+0.1)\<close> give the
  speed 0.5 and a fourth gives 0.6, as floats; after each of the four calls the speed is the
  rounded sum itself, so the clamp changed nothing. The same through three and four polls
  that read \<^verbatim>\<open>]\<close>.
\<close>

theorem three_then_four_presses:
  "speed init_node = f0_2 \<and>
   speed (adjust_speeds [f0_1, f0_1, f0_1] init_node) = f0_5 \<and>
   speed (adjust_speeds [f0_1, f0_1, f0_1, f0_1] init_node) = f0_6 \<and>
   speed (adjust_speeds [f0_1] init_node) = fadd (speed init_node) f0_1 \<and>
   speed (adjust_speeds [f0_1, f0_1] init_node) =
     fadd (speed (adjust_speeds [f0_1] init_node)) f0_1 \<and>
   speed (adjust_speeds [f0_1, f0_1, f0_1] init_node) =
     fadd (speed (adjust_speeds [f0_1, f0_1] init_node)) f0_1 \<and>
   speed (adjust_speeds [f0_1, f0_1, f0_1, f0_1] init_node) =
     fadd (speed (adjust_speeds [f0_1, f0_1, f0_1] init_node)) f0_1 \<and>
   speed (main_loop [poll '']'' 0, poll '']'' 1, poll '']'' 2] init_node) = f0_5 \<and>
   speed (main_loop [poll '']'' 0, poll '']'' 1, poll '']'' 2, poll '']'' 3] init_node) = f0_6"
  by (simp add: speed_adjust_speed init_node_fields sum1 sum2 sum3 sum4 no_clamp f0_5_val
      f0_6_val poll_def keyboard_loop_once_returns Let_def update_velocity_state_fields
      sweep_fields handle_key_speed)

text \<open>
  Claim C8, as stated, fails: a poll that reads \<^verbatim>\<open>m\<close> while the service does not answer
  within the wait sends no request.
\<close>

theorem no_request_when_service_down:
  "keyboard_loop_once service_down ''m'' 0 init_node = Inr mode_key_service_down \<and>
   requests init_node = [] \<and> requests mode_key_service_down = []"
proof -
  have "keyboard_loop_once service_down ''m'' 0 init_node = Inr mode_key_service_down"
    by (simp add: mode_key_service_down_def Let_def keyboard_loop_once_returns)
  moreover have "requests init_node = []" by (simp add: init_node_fields)
  moreover have "requests mode_key_service_down = []" by code_simp
  ultimately show ?thesis by simp
qed

text \<open>
  Claim C8, amended. A call of \<^verbatim>\<open>keyboard_loop_once\<close> that returns sends exactly one
  request when it read a discrete-request key and the service answered within the 1.0 s
  wait: \<^verbatim>\<open>m\<close> sends (control_mode, 140), \<^verbatim>\<open>n\<close> (control_mode, 180), \<^verbatim>\<open>z\<close>
  (action, 0), \<^verbatim>\<open>x\<close> (action, 1), \<^verbatim>\<open>c\<close> (action, 2). It sends none when the
  service did not answer, and none for any other key.
\<close>

theorem discrete_requests:
  assumes "keyboard_loop_once wait_for_service key current_time s = Inr s'"
  shows "requests s' =
     (if \<not> wait_for_service f1_0 then requests s
      else if key = ''m'' then requests s @ [(''control_mode'', 140)]
      else if key = ''n'' then requests s @ [(''control_mode'', 180)]
      else if key = ''z'' then requests s @ [(''action'', 0)]
      else if key = ''x'' then requests s @ [(''action'', 1)]
      else if key = ''c'' then requests s @ [(''action'', 2)]
      else requests s)"
proof -
  from assms have "requests s' = requests (handle_key wait_for_service key current_time s)"
    by (simp add: keyboard_loop_once_Inr update_velocity_state_fields sweep_fields
        handle_key_requests_empty del: if_cancel)
  then show ?thesis by (simp only: handle_key_requests)
qed

theorem discrete_requests_witness:
  "keyboard_loop_once service_up ''m'' 0 init_node = Inr mode_key_service_up \<and>
   service_up f1_0 \<and>
   requests mode_key_service_up = requests init_node @ [(''control_mode'', 140)]"
proof -
  have 1: "keyboard_loop_once service_up ''m'' 0 init_node = Inr mode_key_service_up"
    by (simp add: mode_key_service_up_def poll_def Let_def keyboard_loop_once_returns)
  have 2: "service_up f1_0" by (simp add: service_up_def)
  from discrete_requests [OF 1] 1 2 show ?thesis by simp
qed

text \<open>
  Claim C9, as stated, fails in its last part: \<^verbatim>\<open>]\<close> is not a movement key, and with
  \<^verbatim>\<open>w\<close> held a poll that reads \<^verbatim>\<open>]\<close> leaves another velocity than a poll at the same
  time that reads nothing, and another than before.
\<close>

theorem speed_key_changes_velocity:
  "'']'' \<notin> set movement_keys \<and>
   keyboard_loop_once service_up '']'' 0 held_w = Inr held_w_then_faster \<and>
   keyboard_loop_once service_up [] 0 held_w = Inr held_w_then_idle \<and>
   vx held_w_then_faster \<noteq> vx held_w_then_idle \<and>
   vx held_w_then_faster \<noteq> vx held_w"
proof -
  have "'']'' \<notin> set movement_keys" by (simp add: movement_keys_def)
  moreover have "keyboard_loop_once service_up '']'' 0 held_w = Inr held_w_then_faster"
    by (simp add: held_w_def held_w_then_faster_def poll_def Let_def
        keyboard_loop_once_returns)
  moreover have "keyboard_loop_once service_up [] 0 held_w = Inr held_w_then_idle"
    by (simp add: held_w_def held_w_then_idle_def poll_def Let_def
        keyboard_loop_once_returns)
  moreover have "vx held_w_then_faster \<noteq> vx held_w_then_idle" by code_simp
  moreover have "vx held_w_then_faster \<noteq> vx held_w" by code_simp
  ultimately show ?thesis by simp
qed

text \<open>
  Claim C9, amended. After every call of \<^verbatim>\<open>keyboard_loop_once\<close> in a run of the program,
  the held-key set holds movement keys only and each of its keys has a last-seen entry.
  A key that is not a movement key never enters the held set: the set is the one a call
  that read nothing (\<open>idle\<close>) would leave, and the velocity is the mapper's for that set
  at the speed after the call. For \<^verbatim>\<open>m\<close>, \<^verbatim>\<open>n\<close>, \<^verbatim>\<open>z\<close>, \<^verbatim>\<open>x\<close>, \<^verbatim>\<open>c\<close>,
  \<^verbatim>\<open>h\<close> the velocity is the one of the call that read nothing; \<^verbatim>\<open>[\<close> and \<^verbatim>\<open>]\<close>
  change it through the speed only.
\<close>

theorem held_keys_are_movement_keys:
  assumes "reachable s"
    and "keyboard_loop_once wait_for_service key current_time s = Inr s'"
    and "keyboard_loop_once wait_for_service [] current_time s = Inr idle"
  shows "set (pressed_keys s') \<subseteq> set movement_keys \<and>
         set (pressed_keys s') \<subseteq> dom (key_last_seen s') \<and>
         (key \<notin> set movement_keys \<longrightarrow>
            set (pressed_keys s') = set (pressed_keys idle) \<and>
            set (pressed_keys s') \<subseteq> set (pressed_keys s) \<and>
            vx s' = vx (update_velocity_state (idle\<lparr>speed := speed s'\<rparr>)) \<and>
            vy s' = vy (update_velocity_state (idle\<lparr>speed := speed s'\<rparr>)) \<and>
            vyaw s' = vyaw (update_velocity_state (idle\<lparr>speed := speed s'\<rparr>))) \<and>
         (key \<in> {''m'', ''n'', ''z'', ''x'', ''c'', ''h''} \<longrightarrow>
            vx s' = vx idle \<and> vy s' = vy idle \<and> vyaw s' = vyaw idle)"
proof -
  let ?u = "if key \<noteq> [] then handle_key wait_for_service key current_time s else s"
  have r: "reachable s'" using assms(1,2) by (rule reachable.loop_once)
  from assms(2) have s': "s' = update_velocity_state (sweep current_time ?u)"
    by (simp add: keyboard_loop_once_Inr)
  from assms(3) have idle: "idle = update_velocity_state (sweep current_time s)"
    by (simp add: keyboard_loop_once_Inr)
  have same: "key \<notin> set movement_keys \<Longrightarrow>
      set (pressed_keys ?u) = set (pressed_keys s) \<and> key_last_seen ?u = key_last_seen s"
    by (simp add: handle_key_pressed_keys handle_key_key_last_seen)
  have held: "key \<notin> set movement_keys \<Longrightarrow> set (pressed_keys s') = set (pressed_keys idle)"
    using same by (simp add: s' idle update_velocity_state_fields pressed_keys_sweep)
  have sub: "set (pressed_keys idle) \<subseteq> set (pressed_keys s)"
    by (auto simp: idle update_velocity_state_fields pressed_keys_sweep)
  have sp: "key \<in> {''m'', ''n'', ''z'', ''x'', ''c'', ''h''} \<Longrightarrow> speed s' = speed idle"
    by (auto simp: s' idle update_velocity_state_fields sweep_fields handle_key_speed)
  have mv: "key \<in> {''m'', ''n'', ''z'', ''x'', ''c'', ''h''} \<Longrightarrow> key \<notin> set movement_keys"
    by (auto simp: movement_keys_def)
  have vel: "key \<notin> set movement_keys \<Longrightarrow>
      vx s' = vx (update_velocity_state (idle\<lparr>speed := speed s'\<rparr>)) \<and>
      vy s' = vy (update_velocity_state (idle\<lparr>speed := speed s'\<rparr>)) \<and>
      vyaw s' = vyaw (update_velocity_state (idle\<lparr>speed := speed s'\<rparr>))"
    using reachable_fresh [OF r] held by (simp add: velocity_update_velocity_state)
  have vel_idle: "key \<in> {''m'', ''n'', ''z'', ''x'', ''c'', ''h''} \<Longrightarrow>
      vx s' = vx idle \<and> vy s' = vy idle \<and> vyaw s' = vyaw idle"
  proof -
    assume k: "key \<in> {''m'', ''n'', ''z'', ''x'', ''c'', ''h''}"
    have ri: "reachable idle" using assms(1,3) by (rule reachable.loop_once)
    from reachable_fresh [OF r] reachable_fresh [OF ri] held [OF mv [OF k]] sp [OF k]
    show ?thesis by (simp add: velocity_update_velocity_state)
  qed
  from reachable_held [OF r] held sub vel vel_idle show ?thesis by blast
qed

text \<open>With \<^verbatim>\<open>w\<close> held, a poll that reads \<^verbatim>\<open>h\<close> and one that reads nothing.\<close>

theorem held_keys_are_movement_keys_witness:
  "reachable held_w \<and>
   keyboard_loop_once service_up ''h'' 0 held_w = Inr held_w_then_help \<and>
   keyboard_loop_once service_up [] 0 held_w = Inr held_w_then_idle \<and>
   ''h'' \<notin> set movement_keys \<and>
   set (pressed_keys held_w_then_help) \<subseteq> set movement_keys \<and>
   set (pressed_keys held_w_then_help) \<subseteq> dom (key_last_seen held_w_then_help) \<and>
   set (pressed_keys held_w_then_help) = set (pressed_keys held_w_then_idle) \<and>
   vx held_w_then_help = vx held_w_then_idle \<and>
   vy held_w_then_help = vy held_w_then_idle \<and>
   vyaw held_w_then_help = vyaw held_w_then_idle"
proof -
  have 2: "keyboard_loop_once service_up ''h'' 0 held_w = Inr held_w_then_help"
    by (simp add: held_w_def held_w_then_help_def poll_def Let_def keyboard_loop_once_returns)
  have 3: "keyboard_loop_once service_up [] 0 held_w = Inr held_w_then_idle"
    by (simp add: held_w_def held_w_then_idle_def poll_def Let_def keyboard_loop_once_returns)
  have 4: "''h'' \<notin> set movement_keys" by (simp add: movement_keys_def)
  from held_keys_are_movement_keys [OF reachable_held_w 2 3] reachable_held_w 2 3 4
  show ?thesis by blast
qed

text \<open>
  Claim C10. In every state the program reaches from the initial speed 0.2, each of
  \<open>vx\<close>, \<open>vy\<close>, \<open>vyaw\<close> is at most the current speed in absolute value, the speed is
  between 0.0 and 1.0, and every command published so far is at most 1.0 in absolute value
  in each of the three components the node sets.
\<close>

theorem velocity_bounded_by_speed:
  assumes "reachable s"
  shows "\<bar>vx s\<bar> \<le> speed s \<and> \<bar>vy s\<bar> \<le> speed s \<and> \<bar>vyaw s\<bar> \<le> speed s \<and>
         0 \<le> speed s \<and> speed s \<le> 1 \<and>
         (\<forall>m \<in> set (published s).
            \<bar>linear_x m\<bar> \<le> 1 \<and> \<bar>linear_y m\<bar> \<le> 1 \<and> \<bar>angular_z m\<bar> \<le> 1)"
  using reachable_velocity_bounds [OF assms] reachable_speed [OF assms]
    reachable_published [OF assms] by blast

text \<open>One tick after \<^verbatim>\<open>w\<close> was read.\<close>

theorem velocity_bounded_by_speed_witness:
  "reachable held_w_published \<and>
   \<bar>vx held_w_published\<bar> \<le> speed held_w_published \<and>
   \<bar>vy held_w_published\<bar> \<le> speed held_w_published \<and>
   \<bar>vyaw held_w_published\<bar> \<le> speed held_w_published \<and>
   speed held_w_published \<le> 1 \<and>
   published held_w_published \<noteq> [] \<and>
   \<bar>linear_x (hd (published held_w_published))\<bar> \<le> 1"
proof -
  have r: "reachable held_w_published"
    unfolding held_w_published_def using reachable_held_w by (rule reachable.timer)
  have ne: "published held_w_published \<noteq> []"
    by (simp add: held_w_published_def published_timer_callback)
  then have "hd (published held_w_published) \<in> set (published held_w_published)"
    by simp
  with velocity_bounded_by_speed [OF r] r ne show ?thesis by blast
qed

end
